theory Spec2Isabelle
  imports Complex_Main
begin

section \<open>The continuous profiler (src/index.ts)\<close>

text \<open>
  The repository is one class, \<open>ContinuousProfiler\<close>, that keeps at most one session of
  the browser's self-profiling engine alive and rotates it on a timer or when the engine
  reports a full sample buffer. The class mutates its own \<open>session\<close> slot and calls into
  the host: \<open>performance.now()\<close>, \<open>performance.timeOrigin\<close>, \<open>setTimeout\<close>,
  \<open>clearTimeout\<close>, \<open>new Profiler(...)\<close>, \<open>addEventListener\<close> and the engine's
  asynchronous \<open>stop()\<close>. The embedding passes one record around, \<open>world\<close>, that holds
  the object's fields and the part of the host the object touches. JavaScript runs every
  task to completion, so a task (a call of the user, a timer that fires, an event the
  engine dispatches, a promise that settles) is one step of the world.

  Numbers. A JavaScript \<open>number\<close> is an IEEE 754 double: a finite value, a negative
  zero, an infinity or NaN. The finite values are carried as rationals, and every
  product, quotient and sum is the exact result rounded to the nearest double, a tie
  going to the even significand. Handles (timer ids, engine instances) are natural
  numbers.

  Collaborators. The engine, the timers and the clock are not part of the repository;
  the source only declares the engine's interface. They are modelled as far as the class
  observes them. \<open>new Profiler(...)\<close> may throw, as the host decides; the other host
  calls return. The consumer callback is modelled by the list of the traces it was
  invoked with; it is the last thing its task does, so a call it makes back into the
  object is a task that follows.
\<close>

subsection \<open>JavaScript numbers\<close>

datatype number = Num rat | NegZero | Infinity | NegInfinity | NaN

text \<open>\<open>Num 0\<close> is the positive zero. \<open>pow2 k\<close> is \<open>2\<close> to the \<open>k\<close>, \<open>bits n\<close> the number
  of binary digits of \<open>n\<close>, and \<open>ilog2 r\<close>, for a positive \<open>r\<close>, the exponent \<open>e\<close> with
  \<open>pow2 e \<le> r < pow2 (e + 1)\<close>.\<close>

definition pow2 :: "int \<Rightarrow> rat" where
  "pow2 k = (if 0 \<le> k then 2 ^ nat k else 1 / 2 ^ nat (- k))"

function bits :: "int \<Rightarrow> int" where
  "bits n = (if n \<le> 0 then 0 else 1 + bits (n div 2))"
  by pat_completeness auto
termination
  by (relation "measure nat") auto

definition ilog2 :: "rat \<Rightarrow> int" where
  "ilog2 r =
     (let (p, q) = quotient_of r;
          d = bits p - bits q
      in if pow2 d \<le> r then d else d - 1)"

definition round_half_even :: "rat \<Rightarrow> int" where
  "round_half_even x =
     (let f = \<lfloor>x\<rfloor>; d = x - of_int f
      in if d < 1 / 2 then f else if 1 / 2 < d then f + 1 else if even f then f else f + 1)"

text \<open>
  The double nearest to the exact value \<open>r\<close> (binary64: 53 significant bits, the least
  exponent of a unit in the last place is \<open>-1074\<close>, and a magnitude that rounds to
  \<open>pow2 1024\<close> or more overflows). The magnitude is rounded to \<open>n\<close> units of
  \<open>pow2 q\<close>; it has \<open>bits n + q\<close> binary digits before the point, so it reaches
  \<open>pow2 1024\<close> exactly when that count exceeds 1024. An exact zero is the positive zero
  here; the operations below give the zero its sign.
\<close>

definition to_double :: "rat \<Rightarrow> number" where
  "to_double r =
     (if r = 0 then Num 0
      else
        let a = \<bar>r\<bar>;
            q = max (ilog2 a - 52) (- 1074);
            n = round_half_even (a / pow2 q);
            v = of_int n * pow2 q
        in if 1024 < bits n + q then (if 0 < r then Infinity else NegInfinity)
           else if n = 0 then (if 0 < r then Num 0 else NegZero)
           else Num (if 0 < r then v else - v))"

definition is_zero :: "number \<Rightarrow> bool" where
  "is_zero x = (x = Num 0 \<or> x = NegZero)"

definition is_infinite :: "number \<Rightarrow> bool" where
  "is_infinite x = (x = Infinity \<or> x = NegInfinity)"

fun negative :: "number \<Rightarrow> bool" where
  "negative (Num r) = (r < 0)"
| "negative NegZero = True"
| "negative Infinity = False"
| "negative NegInfinity = True"
| "negative NaN = False"

fun magnitude :: "number \<Rightarrow> rat" where
  "magnitude (Num r) = r"
| "magnitude _ = 0"

text \<open>The operators \<open>*\<close>, \<open>/\<close> and \<open>+\<close> on numbers.\<close>

definition js_mul :: "number \<Rightarrow> number \<Rightarrow> number" where
  "js_mul x y =
     (if x = NaN \<or> y = NaN then NaN
      else if (is_infinite x \<and> is_zero y) \<or> (is_zero x \<and> is_infinite y) then NaN
      else if is_infinite x \<or> is_infinite y
        then (if negative x = negative y then Infinity else NegInfinity)
      else if is_zero x \<or> is_zero y
        then (if negative x = negative y then Num 0 else NegZero)
      else to_double (magnitude x * magnitude y))"

definition js_div :: "number \<Rightarrow> number \<Rightarrow> number" where
  "js_div x y =
     (if x = NaN \<or> y = NaN then NaN
      else if (is_infinite x \<and> is_infinite y) \<or> (is_zero x \<and> is_zero y) then NaN
      else if is_infinite x \<or> is_zero y
        then (if negative x = negative y then Infinity else NegInfinity)
      else if is_infinite y \<or> is_zero x
        then (if negative x = negative y then Num 0 else NegZero)
      else to_double (magnitude x / magnitude y))"

definition js_add :: "number \<Rightarrow> number \<Rightarrow> number" where
  "js_add x y =
     (if x = NaN \<or> y = NaN then NaN
      else if is_infinite x \<and> is_infinite y then (if x = y then x else NaN)
      else if is_infinite x then x
      else if is_infinite y then y
      else if x = NegZero \<and> y = NegZero then NegZero
      else if magnitude x + magnitude y = 0 then Num 0
      else to_double (magnitude x + magnitude y))"

text \<open>\<open>Math.round\<close>: the nearest integer, a tie going up; NaN, the infinities and the
  zeros are returned as they are, and a value in \<open>[-0.5, 0)\<close> gives the negative zero.\<close>

definition Math_round :: "number \<Rightarrow> number" where
  "Math_round x =
     (case x of
        Num r \<Rightarrow> if r < 0 \<and> - (1 / 2) \<le> r then NegZero else Num (of_int \<lfloor>r + 1 / 2\<rfloor>)
      | _ \<Rightarrow> x)"

text \<open>\<open>ToBoolean\<close> of an optional number (\<open>None\<close> is \<open>undefined\<close>): the falsy values are
  \<open>undefined\<close>, the two zeros and NaN.\<close>

definition truthy :: "number option \<Rightarrow> bool" where
  "truthy v = (case v of None \<Rightarrow> False | Some x \<Rightarrow> x \<noteq> Num 0 \<and> x \<noteq> NegZero \<and> x \<noteq> NaN)"

subsection \<open>Data of the source\<close>

record ProfilerFrame =
  name :: string
  resourceId :: "nat option"
  line :: "nat option"
  column :: "nat option"

record ProfilerStack =
  parentId :: "nat option"
  frameId :: nat

record ProfilerSample =
  timestamp :: number
  stackId :: "nat option"

type_synonym ProfilerResource = string

record ProfilerTrace =
  resources :: "ProfilerResource list"
  frames :: "ProfilerFrame list"
  stacks :: "ProfilerStack list"
  samples :: "ProfilerSample list"

text \<open>\<open>ContinuousProfilerTrace extends ProfilerTrace\<close> with the fields \<open>start\<close> and
  \<open>end\<close>; they are named \<open>trace_start\<close> and \<open>trace_end\<close> here.\<close>

record ContinuousProfilerTrace = ProfilerTrace +
  trace_start :: number
  trace_end :: number

text \<open>\<open>ContinuousProfilerInitOptions\<close>: both fields are optional (\<open>None\<close> is
  \<open>undefined\<close>).\<close>

record ContinuousProfilerInitOptions =
  init_sampleInterval :: "number option"
  init_collectInterval :: "number option"

record ContinuousProfilerOptions =
  sampleInterval :: number
  collectInterval :: number
  maxBufferSize :: number

text \<open>\<open>ContinuousProfilerSession\<close>: \<open>profiler\<close> is the handle of the engine instance,
  \<open>session_start\<close> is the source's field \<open>start\<close>.\<close>

record ContinuousProfilerSession =
  profiler :: nat
  session_start :: number
  timeoutId :: nat

text \<open>The module constant \<open>Profiler: Profiler | undefined\<close>. On the two values of the
  declared type the guard \<open>!Profiler\<close> of \<open>start()\<close> and the test
  \<open>Profiler !== undefined\<close> of \<open>supported\<close> agree.\<close>

datatype capability = Undefined | Constructor

text \<open>What \<open>start()\<close> can throw: the \<open>Error\<close> it creates itself, with its message, or
  whatever \<open>new Profiler(...)\<close> threw, by its name.\<close>

datatype error = Error string | EngineException string

definition UnsupportedEnvironment :: error where
  "UnsupportedEnvironment = Error ''Profiler is not supported.''"

subsection \<open>The host, as far as the class uses it\<close>

text \<open>An engine instance as the host keeps it: the \<open>ProfilerInitOptions\<close> it was built
  with, its \<open>stopped\<close> attribute, and how many \<open>samplebufferfull\<close> listeners the class
  has added to it (every such listener has the same body, a rotation of \<open>this\<close>).\<close>

record engine =
  engine_sampleInterval :: number
  engine_maxBufferSize :: number
  engine_stopped :: bool
  listeners :: nat

text \<open>The calls the class makes into the host and that return, in the order it makes
  them.\<close>

datatype call =
    NewProfiler nat number number
  | SetTimeout nat number
  | AddEventListener nat
  | ProfilerStop nat
  | ClearTimeout nat

text \<open>What \<open>stop()\<close> returns: a promise already resolved, or the promise chained on the
  engine's \<open>stop()\<close> of the instance named.\<close>

datatype promise = Resolved | AfterTrace nat

text \<open>
  The first two fields are the object's (\<open>this.session\<close>, \<open>this.options\<close>). The rest is
  the host: the module constant \<open>Profiler\<close>; what \<open>new Profiler(...)\<close> throws when it
  is called now, if anything; the readings of \<open>performance.now()\<close> and
  \<open>performance.timeOrigin\<close>; the pending timeouts; the engine instances (an instance's
  handle is its index); the continuations waiting for an engine's trace (the instance
  and the \<open>start\<close> the closure captured); the traces the consumer callback was invoked
  with; and the calls made so far.
\<close>

record world =
  session :: "ContinuousProfilerSession option"
  options :: ContinuousProfilerOptions
  Profiler :: capability
  Profiler_throws :: "string option"
  now :: rat
  timeOrigin :: rat
  timers :: "nat list"
  next_timeout :: nat
  engines :: "engine list"
  pending :: "(nat \<times> number) list"
  delivered :: "ContinuousProfilerTrace list"
  calls :: "call list"

subsection \<open>JavaScript operators the constructor uses\<close>

text \<open>\<open>options && options.f\<close>: \<open>undefined\<close> when \<open>options\<close> is.\<close>

definition and_field ::
  "ContinuousProfilerInitOptions option \<Rightarrow> (ContinuousProfilerInitOptions \<Rightarrow> number option) \<Rightarrow>
   number option"
where
  "and_field opts f = (case opts of None \<Rightarrow> None | Some r \<Rightarrow> f r)"

text \<open>\<open>v || d\<close> on an optional number.\<close>

definition or_default :: "number option \<Rightarrow> number \<Rightarrow> number" where
  "or_default v d = (case v of None \<Rightarrow> d | Some x \<Rightarrow> if truthy (Some x) then x else d)"

subsection \<open>The class\<close>

definition constructor :: "ContinuousProfilerInitOptions option \<Rightarrow> ContinuousProfilerOptions" where
  "constructor opts =
     (let sampleInterval' = or_default (and_field opts init_sampleInterval) (Num 10);
          collectInterval' = or_default (and_field opts init_collectInterval) (Num 10000)
      in \<lparr>sampleInterval = sampleInterval',
          collectInterval = collectInterval',
          maxBufferSize =
            Math_round (js_div (js_mul collectInterval' (Num 1.5)) sampleInterval')\<rparr>)"

definition supported :: "world \<Rightarrow> bool" where
  "supported w = (Profiler w \<noteq> Undefined)"

definition stopped :: "world \<Rightarrow> bool" where
  "stopped w = (session w = None)"

definition performance_now :: "world \<Rightarrow> number" where
  "performance_now w = Num (now w)"

definition performance_timeOrigin :: "world \<Rightarrow> number" where
  "performance_timeOrigin w = Num (timeOrigin w)"

text \<open>\<open>new Profiler({sampleInterval, maxBufferSize})\<close>: the exception, or the new
  instance's handle and the world with it.\<close>

definition new_Profiler :: "number \<Rightarrow> number \<Rightarrow> world \<Rightarrow> error + nat \<times> world" where
  "new_Profiler si mbs w =
     (case Profiler_throws w of
        Some e \<Rightarrow> Inl (EngineException e)
      | None \<Rightarrow>
          let h = length (engines w)
          in Inr (h, w\<lparr>engines := engines w @
                      [\<lparr>engine_sampleInterval = si, engine_maxBufferSize = mbs,
                        engine_stopped = False, listeners = 0\<rparr>],
                    calls := calls w @ [NewProfiler h si mbs]\<rparr>))"

text \<open>\<open>setTimeout(rotation, delay)\<close>: a fresh id, pending from now on.\<close>

definition setTimeout :: "number \<Rightarrow> world \<Rightarrow> nat \<times> world" where
  "setTimeout delay w =
     (let tid = next_timeout w
      in (tid, w\<lparr>timers := timers w @ [tid], next_timeout := Suc tid,
                  calls := calls w @ [SetTimeout tid delay]\<rparr>))"

definition clearTimeout :: "nat \<Rightarrow> world \<Rightarrow> world" where
  "clearTimeout tid w =
     w\<lparr>timers := removeAll tid (timers w), calls := calls w @ [ClearTimeout tid]\<rparr>"

text \<open>\<open>profiler.addEventListener("samplebufferfull", rotation)\<close> on instance \<open>h\<close>.\<close>

definition addEventListener :: "nat \<Rightarrow> world \<Rightarrow> world" where
  "addEventListener h w =
     w\<lparr>engines := (if h < length (engines w)
                    then (engines w)[h := (engines w ! h)\<lparr>listeners := Suc (listeners (engines w ! h))\<rparr>]
                    else engines w),
       calls := calls w @ [AddEventListener h]\<rparr>"

text \<open>\<open>profiler.stop().then(k)\<close> on instance \<open>h\<close>, where the closure \<open>k\<close> captured
  \<open>start\<close>: the engine is told to stop and \<open>k\<close> waits for its trace.\<close>

definition profiler_stop_then :: "nat \<Rightarrow> number \<Rightarrow> world \<Rightarrow> world" where
  "profiler_stop_then h start' w =
     w\<lparr>engines := (if h < length (engines w)
                    then (engines w)[h := (engines w ! h)\<lparr>engine_stopped := True\<rparr>]
                    else engines w),
       pending := pending w @ [(h, start')],
       calls := calls w @ [ProfilerStop h]\<rparr>"

text \<open>\<open>start()\<close>. The object literal is evaluated in the order of its properties:
  \<open>performance.now()\<close>, \<open>new Profiler\<close>, \<open>setTimeout\<close>; then the listener is added. An
  exception of \<open>new Profiler\<close> leaves \<open>start()\<close> before anything is assigned.\<close>

definition start :: "world \<Rightarrow> error + world" where
  "start w =
     (if Profiler w = Undefined then Inl (Error ''Profiler is not supported.'')
      else if session w \<noteq> None then Inr w
      else
        let t = performance_now w
        in case new_Profiler (sampleInterval (options w)) (maxBufferSize (options w)) w of
             Inl e \<Rightarrow> Inl e
           | Inr (h, w1) \<Rightarrow>
               let (tid, w2) = setTimeout (collectInterval (options w)) w1;
                   w3 = w2\<lparr>session := Some \<lparr>profiler = h, session_start = t, timeoutId = tid\<rparr>\<rparr>
               in Inr (addEventListener h w3))"

text \<open>\<open>stop()\<close>: the promise it returns and the world it leaves.\<close>

definition stop :: "world \<Rightarrow> promise \<times> world" where
  "stop w =
     (case session w of
        None \<Rightarrow> (Resolved, w)
      | Some s \<Rightarrow>
          let start' = session_start s;
              w1 = profiler_stop_then (profiler s) start' w;
              w2 = clearTimeout (timeoutId s) w1
          in (AfterTrace (profiler s), w2\<lparr>session := None\<rparr>))"

text \<open>\<open>Object.assign(trace, {start, end})\<close>: the trace with the two bounds attached.\<close>

definition Object_assign :: "ProfilerTrace \<Rightarrow> number \<Rightarrow> number \<Rightarrow> ContinuousProfilerTrace" where
  "Object_assign trace start' end' =
     \<lparr>resources = resources trace, frames = frames trace,
      stacks = stacks trace, samples = samples trace,
      trace_start = start', trace_end = end'\<rparr>"

text \<open>The closure given to \<open>then\<close>, run with the engine's trace; \<open>start'\<close> is the
  \<open>start\<close> it captured. The consumer callback is invoked with the assigned trace.\<close>

definition on_trace :: "number \<Rightarrow> ProfilerTrace \<Rightarrow> world \<Rightarrow> world" where
  "on_trace start' trace w =
     (let end' = performance_now w
      in w\<lparr>delivered := delivered w @
             [Object_assign trace
                (js_add (performance_timeOrigin w) start')
                (js_add (performance_timeOrigin w) end')]\<rparr>)"

text \<open>The body of both triggers: \<open>this.stop(); this.start();\<close>. The promise of
  \<open>stop()\<close> is dropped; an exception of \<open>start()\<close> ends the task where it is.\<close>

definition rotation :: "world \<Rightarrow> world" where
  "rotation w =
     (let w1 = snd (stop w)
      in case start w1 of Inl e \<Rightarrow> w1 | Inr w2 \<Rightarrow> w2)"

subsection \<open>Tasks\<close>

text \<open>
  What can happen to the object, one task at a time: the user calls \<open>start()\<close> or
  \<open>stop()\<close>; a pending timeout fires; an engine instance dispatches
  \<open>samplebufferfull\<close>; the \<open>stop()\<close> promise of an engine instance resolves with a trace,
  or rejects; the clock moves on to a later reading; the host changes what
  \<open>new Profiler(...)\<close> does from now on (throw the exception named, or construct).
\<close>

datatype event =
    CallStart
  | CallStop
  | TimeoutFires nat
  | SampleBufferFull nat
  | StopResolves nat ProfilerTrace
  | StopRejects nat
  | ClockReads rat
  | EngineThrows "string option"

fun run_pending :: "nat \<Rightarrow> ProfilerTrace \<Rightarrow> (nat \<times> number) list \<Rightarrow> world \<Rightarrow> world" where
  "run_pending h trace [] w = w"
| "run_pending h trace ((h', s) # ps) w =
     run_pending h trace ps (if h' = h then on_trace s trace w else w)"

definition step :: "event \<Rightarrow> world \<Rightarrow> world" where
  "step e w =
     (case e of
        CallStart \<Rightarrow> (case start w of Inl err \<Rightarrow> w | Inr w' \<Rightarrow> w')
      | CallStop \<Rightarrow> snd (stop w)
      | TimeoutFires tid \<Rightarrow>
          if tid \<in> set (timers w) then rotation (w\<lparr>timers := removeAll tid (timers w)\<rparr>) else w
      | SampleBufferFull h \<Rightarrow>
          if h < length (engines w) then (rotation ^^ listeners (engines w ! h)) w else w
      | StopResolves h trace \<Rightarrow>
          run_pending h trace (pending w) (w\<lparr>pending := filter (\<lambda>p. fst p \<noteq> h) (pending w)\<rparr>)
      | StopRejects h \<Rightarrow> w\<lparr>pending := filter (\<lambda>p. fst p \<noteq> h) (pending w)\<rparr>
      | ClockReads t \<Rightarrow> if now w \<le> t then w\<lparr>now := t\<rparr> else w
      | EngineThrows x \<Rightarrow> w\<lparr>Profiler_throws := x\<rparr>)"

fun run :: "world \<Rightarrow> event list \<Rightarrow> world" where
  "run w [] = w"
| "run w (e # es) = run (step e w) es"

text \<open>A page that has just built the object: \<open>new ContinuousProfiler(callback, opts)\<close>
  with the capability \<open>cap\<close>, the time origin \<open>T0\<close> and the clock at \<open>t0\<close>.\<close>

definition new_world :: "capability \<Rightarrow> rat \<Rightarrow> rat \<Rightarrow> ContinuousProfilerInitOptions option \<Rightarrow> world" where
  "new_world cap T0 t0 opts =
     \<lparr>session = None, options = constructor opts, Profiler = cap, Profiler_throws = None,
      now = t0, timeOrigin = T0,
      timers = [], next_timeout = 1, engines = [], pending = [], delivered = [], calls = []\<rparr>"

text \<open>The engine instances that were created and not told to stop.\<close>

definition live_engines :: "world \<Rightarrow> nat list" where
  "live_engines w = filter (\<lambda>h. \<not> engine_stopped (engines w ! h)) [0..<length (engines w)]"

text \<open>
  What holds of every world the tasks can reach: a session exists only where the engine
  does; the session's engine is an instance, and it is the one instance not told to
  stop; every instance carries one listener; the pending timeout is the session's; the
  continuations wait for distinct instances, each told to stop.
\<close>

definition coherent :: "world \<Rightarrow> bool" where
  "coherent w =
     ((Profiler w = Undefined \<longrightarrow> session w = None) \<and>
      (\<forall>s. session w = Some s \<longrightarrow> profiler s < length (engines w)) \<and>
      (\<forall>h < length (engines w).
          engine_stopped (engines w ! h) = (map_option profiler (session w) \<noteq> Some h) \<and>
          listeners (engines w ! h) = 1) \<and>
      timers w = (case session w of None \<Rightarrow> [] | Some s \<Rightarrow> [timeoutId s]) \<and>
      distinct (map fst (pending w)) \<and>
      (\<forall>h \<in> fst ` set (pending w). h < length (engines w) \<and> engine_stopped (engines w ! h)))"


section \<open>Numbers\<close>

subsection \<open>Rounding to the nearest double\<close>

text \<open>\<open>bits\<close> counts binary digits, \<open>ilog2\<close> finds the exponent, the overflow test
  of \<open>to_double\<close> compares the rounded magnitude with \<open>pow2 1024\<close>, and what
  \<open>to_double\<close> returns lies on the grid of the doubles (at most 53 significant bits,
  no unit in the last place below \<open>pow2 (- 1074)\<close>) within half a unit of the exact
  value.\<close>

declare bits.simps [simp del]

lemma pow2_powi: "pow2 k = 2 powi k"
  by (simp add: pow2_def power_int_def inverse_eq_divide power_one_over)

lemma bits_nonneg: "0 \<le> bits n"
proof (induction n rule: bits.induct)
  case (1 n)
  then show ?case
    by (subst bits.simps) simp
qed

lemma bits_bounds:
  "0 < n \<Longrightarrow> 2 ^ nat (bits n - 1) \<le> n \<and> n < 2 ^ nat (bits n)"
proof (induction n rule: bits.induct)
  case (1 n)
  show ?case
  proof (cases "n div 2 = 0")
    case True
    with "1.prems" have "n = 1" by presburger
    then show ?thesis by (simp add: bits.simps [of 1] bits.simps [of 0])
  next
    case False
    with "1.prems" have pos: "0 < n div 2" by presburger
    let ?b = "bits (n div 2)"
    from "1.IH" "1.prems" pos have ih: "2 ^ nat (?b - 1) \<le> n div 2" "n div 2 < 2 ^ nat ?b"
      by simp_all
    have b1: "1 \<le> ?b"
      using pos bits_nonneg [of "(n div 2) div 2"] by (simp add: bits.simps [of "n div 2"])
    have bn: "bits n = 1 + ?b"
      using "1.prems" by (simp add: bits.simps [of n])
    have e1: "nat (bits n - 1) = Suc (nat (?b - 1))" "nat (bits n) = Suc (nat ?b)"
      using b1 bn by simp_all
    from ih show ?thesis
      unfolding e1 by (simp; presburger)
  qed
qed


lemma bits_bounds_rat:
  assumes "0 < n"
  shows "pow2 (bits n - 1) \<le> of_int n" "(of_int n :: rat) < pow2 (bits n)"
proof -
  have b1: "1 \<le> bits n"
    using assms bits_nonneg [of "n div 2"] by (simp add: bits.simps [of n])
  from bits_bounds [OF assms] have "2 ^ nat (bits n - 1) \<le> n" "n < 2 ^ nat (bits n)"
    by simp_all
  then have "(of_int (2 ^ nat (bits n - 1)) :: rat) \<le> of_int n"
    "(of_int n :: rat) < of_int (2 ^ nat (bits n))"
    by (simp_all only: of_int_le_iff of_int_less_iff)
  with b1 show "pow2 (bits n - 1) \<le> of_int n" "(of_int n :: rat) < pow2 (bits n)"
    by (simp_all add: pow2_def)
qed

lemma pow2_add: "pow2 (a + b) = pow2 a * pow2 b"
  by (simp add: pow2_powi power_int_add)

lemma pow2_pos: "0 < pow2 k"
  by (simp add: pow2_powi)

lemma pow2_mono: "a \<le> b \<Longrightarrow> pow2 a \<le> pow2 b"
  by (simp add: pow2_powi power_int_increasing)

lemma pow2_strict_mono: "a < b \<Longrightarrow> pow2 a < pow2 b"
  by (simp add: pow2_powi power_int_strict_increasing)

lemma overflow_test:
  assumes "0 < n"
  shows "(1024 < bits n + q) = (pow2 1024 \<le> of_int n * pow2 q)"
proof
  assume "1024 < bits n + q"
  then have "pow2 1024 \<le> pow2 ((bits n - 1) + q)"
    by (intro pow2_mono) simp
  also have "\<dots> = pow2 (bits n - 1) * pow2 q"
    by (rule pow2_add)
  also have "\<dots> \<le> of_int n * pow2 q"
    using bits_bounds_rat(1) [OF assms] pow2_pos [of q] by (intro mult_right_mono) simp_all
  finally show "pow2 1024 \<le> of_int n * pow2 q" .
next
  assume a: "pow2 1024 \<le> of_int n * pow2 q"
  show "1024 < bits n + q"
  proof (rule ccontr)
    assume "\<not> 1024 < bits n + q"
    then have le: "bits n + q \<le> 1024" by simp
    have "of_int n * pow2 q < pow2 (bits n) * pow2 q"
      using bits_bounds_rat(2) [OF assms] pow2_pos [of q] by (intro mult_strict_right_mono)
    also have "\<dots> = pow2 (bits n + q)"
      by (rule pow2_add [symmetric])
    also have "\<dots> \<le> pow2 1024"
      using le by (rule pow2_mono)
    finally show False using a by simp
  qed
qed

lemma ilog2_bounds:
  assumes "0 < r"
  shows "pow2 (ilog2 r) \<le> r \<and> r < pow2 (ilog2 r + 1)"
proof -
  obtain p q where pq: "quotient_of r = (p, q)"
    by (cases "quotient_of r")
  have q: "0 < q"
    using pq by (rule quotient_of_denom_pos)
  have r: "r = of_int p / of_int q"
    using pq by (rule quotient_of_div)
  with assms q have p: "0 < p"
    by (simp add: zero_less_divide_iff)
  define d where "d = bits p - bits q"
  have e: "ilog2 r = (if pow2 d \<le> r then d else d - 1)"
    by (simp add: ilog2_def pq d_def Let_def)
  have qpos: "(0::rat) < of_int q"
    using q by simp
  have up: "r < pow2 (d + 1)"
  proof -
    have "of_int p < pow2 (bits p)"
      by (rule bits_bounds_rat(2) [OF p])
    also have "\<dots> = pow2 (d + 1) * pow2 (bits q - 1)"
      by (simp add: d_def flip: pow2_add)
    also have "\<dots> \<le> pow2 (d + 1) * of_int q"
      using bits_bounds_rat(1) [OF q] pow2_pos [of "d + 1"] by (intro mult_left_mono) simp_all
    finally show ?thesis
      using qpos by (simp add: r pos_divide_less_eq)
  qed
  have lo: "pow2 (d - 1) \<le> r"
  proof -
    have "pow2 (d - 1) * of_int q \<le> pow2 (d - 1) * pow2 (bits q)"
      using bits_bounds_rat(2) [OF q] pow2_pos [of "d - 1"] by (intro mult_left_mono) simp_all
    also have "\<dots> = pow2 (bits p - 1)"
      by (simp add: d_def flip: pow2_add)
    also have "\<dots> \<le> of_int p"
      by (rule bits_bounds_rat(1) [OF p])
    finally show ?thesis
      using qpos by (simp add: r pos_le_divide_eq)
  qed
  show ?thesis
  proof (cases "pow2 d \<le> r")
    case True
    with e up show ?thesis by simp
  next
    case False
    with e lo show ?thesis by simp
  qed
qed

lemma round_half_even_bounds:
  "\<bar>of_int (round_half_even x) - x\<bar> \<le> 1 / 2"
  by (auto simp: round_half_even_def Let_def abs_if; linarith)

lemma to_double_error:
  assumes "to_double r = Num v"
  shows "\<bar>v - r\<bar> \<le> pow2 (max (ilog2 \<bar>r\<bar> - 52) (- 1074)) / 2"
proof (cases "r = 0")
  case True
  with assms show ?thesis
    using pow2_pos [of "max (ilog2 \<bar>r\<bar> - 52) (- 1074)"] by (simp add: to_double_def)
next
  case False
  define q where "q = max (ilog2 \<bar>r\<bar> - 52) (- 1074)"
  define n where "n = round_half_even (\<bar>r\<bar> / pow2 q)"
  have v: "v = (if 0 < r then of_int n * pow2 q else - (of_int n * pow2 q))"
    using assms False unfolding n_def q_def
    by (auto simp: to_double_def Let_def split: if_splits)
  have "\<bar>of_int n - \<bar>r\<bar> / pow2 q\<bar> \<le> 1 / 2"
    unfolding n_def by (rule round_half_even_bounds)
  then have "\<bar>of_int n - \<bar>r\<bar> / pow2 q\<bar> * pow2 q \<le> 1 / 2 * pow2 q"
    using pow2_pos [of q] by (intro mult_right_mono) simp_all
  moreover have "\<bar>of_int n - \<bar>r\<bar> / pow2 q\<bar> * pow2 q = \<bar>of_int n * pow2 q - \<bar>r\<bar>\<bar>"
  proof -
    have "\<bar>of_int n - \<bar>r\<bar> / pow2 q\<bar> * pow2 q = \<bar>(of_int n - \<bar>r\<bar> / pow2 q) * pow2 q\<bar>"
      using pow2_pos [of q] by (simp add: abs_mult)
    also have "(of_int n - \<bar>r\<bar> / pow2 q) * pow2 q = of_int n * pow2 q - \<bar>r\<bar>"
      using pow2_pos [of q] by (simp add: left_diff_distrib)
    finally show ?thesis .
  qed
  ultimately have "\<bar>of_int n * pow2 q - \<bar>r\<bar>\<bar> \<le> pow2 q / 2"
    by simp
  with v False show ?thesis
    unfolding q_def [symmetric] by (auto simp: abs_if split: if_splits)
qed


lemma round_half_even_le: "x < of_int k \<Longrightarrow> round_half_even x \<le> k"
proof -
  assume "x < of_int k"
  then have "\<lfloor>x\<rfloor> < k"
    by (simp add: floor_less_iff)
  then show ?thesis
    by (auto simp: round_half_even_def Let_def)
qed

lemma round_half_even_nonneg: "0 \<le> x \<Longrightarrow> 0 \<le> round_half_even x"
  by (auto simp: round_half_even_def Let_def)

lemma to_double_grid:
  assumes "to_double r = Num v" "r \<noteq> 0"
  shows "\<exists>n. \<bar>v\<bar> = of_int n * pow2 (max (ilog2 \<bar>r\<bar> - 52) (- 1074)) \<and> 0 \<le> n \<and> n \<le> 2 ^ 53"
proof -
  define q where "q = max (ilog2 \<bar>r\<bar> - 52) (- 1074)"
  define n where "n = round_half_even (\<bar>r\<bar> / pow2 q)"
  have v: "v = (if 0 < r then of_int n * pow2 q else - (of_int n * pow2 q))"
    using assms unfolding n_def q_def
    by (auto simp: to_double_def Let_def split: if_splits)
  have n0: "0 \<le> n"
    unfolding n_def using pow2_pos [of q] by (intro round_half_even_nonneg) simp
  have "\<bar>r\<bar> < pow2 (ilog2 \<bar>r\<bar> + 1)"
    using ilog2_bounds [of "\<bar>r\<bar>"] assms(2) by simp
  also have "\<dots> \<le> pow2 (53 + q)"
    unfolding q_def by (intro pow2_mono) simp
  also have "\<dots> = pow2 53 * pow2 q"
    by (rule pow2_add)
  finally have "\<bar>r\<bar> / pow2 q < pow2 53"
    using pow2_pos [of q] by (simp add: pos_divide_less_eq)
  also have "pow2 53 = of_int (2 ^ 53)"
    by (simp add: pow2_def)
  finally have "n \<le> 2 ^ 53"
    unfolding n_def by (rule round_half_even_le)
  moreover have "0 \<le> of_int n * pow2 q"
    using n0 pow2_pos [of q] by simp
  then have "\<bar>v\<bar> = of_int n * pow2 q"
    using v by (simp split: if_splits)
  ultimately show ?thesis
    using n0 unfolding q_def [symmetric] by blast
qed

text \<open>On values whose doubles are known: the decimal \<open>0.1\<close>, and odd integers above
  \<open>2^53\<close> (ties, which go to the even significand).\<close>

lemma to_double_examples:
  "to_double (1 / 10) = Num (3602879701896397 / 36028797018963968)"
  "to_double (2 ^ 53 + 1) = Num (2 ^ 53)"
  "to_double (2 ^ 53 + 3) = Num (2 ^ 53 + 4)"
  by code_simp+

subsection \<open>The operators on finite values\<close>





section \<open>The configuration\<close>

lemma or_default_truthy: "truthy (Some x) \<Longrightarrow> or_default (Some x) d = x"
  by (simp add: or_default_def)

lemma or_default_falsy:
  "or_default None d = d" "or_default (Some (Num 0)) d = d"
  "or_default (Some NegZero) d = d" "or_default (Some NaN) d = d"
  by (simp_all add: or_default_def truthy_def)


lemma constructor_fields:
  "sampleInterval (constructor (Some \<lparr>init_sampleInterval = v, init_collectInterval = u\<rparr>)) =
     or_default v (Num 10)"
  "collectInterval (constructor (Some \<lparr>init_sampleInterval = v, init_collectInterval = u\<rparr>)) =
     or_default u (Num 10000)"
  "maxBufferSize (constructor opts) =
     Math_round (js_div (js_mul (collectInterval (constructor opts)) (Num 1.5))
                        (sampleInterval (constructor opts)))"
  by (simp_all add: constructor_def Let_def and_field_def)

lemma constructor_defaults:
  "constructor None = \<lparr>sampleInterval = Num 10, collectInterval = Num 10000, maxBufferSize = Num 1500\<rparr>"
  by code_simp

text \<open>The derived size need not be finite, or a number at all.\<close>

lemma constructor_not_finite:
  "maxBufferSize (constructor (Some \<lparr>init_sampleInterval = Some (Num 10),
                                     init_collectInterval = Some Infinity\<rparr>)) = Infinity"
  "maxBufferSize (constructor (Some \<lparr>init_sampleInterval = Some Infinity,
                                     init_collectInterval = Some Infinity\<rparr>)) = NaN"
  by code_simp+




text \<open>
  C10. A supplied \<open>sampleInterval\<close> or \<open>collectInterval\<close> that is falsy (\<open>0\<close>, \<open>-0\<close>,
  NaN) is replaced by the default (10, 10000), as an absent one is, and as both are when
  the options are absent; a supplied value that is none of these is used as given.
\<close>

theorem falsy_interval_gets_default:
  "sampleInterval (constructor (Some \<lparr>init_sampleInterval = Some (Num 0), init_collectInterval = c\<rparr>)) = Num 10 \<and>
   sampleInterval (constructor (Some \<lparr>init_sampleInterval = Some NegZero, init_collectInterval = c\<rparr>)) = Num 10 \<and>
   sampleInterval (constructor (Some \<lparr>init_sampleInterval = Some NaN, init_collectInterval = c\<rparr>)) = Num 10 \<and>
   sampleInterval (constructor (Some \<lparr>init_sampleInterval = None, init_collectInterval = c\<rparr>)) = Num 10 \<and>
   collectInterval (constructor (Some \<lparr>init_sampleInterval = s, init_collectInterval = Some (Num 0)\<rparr>)) = Num 10000 \<and>
   collectInterval (constructor (Some \<lparr>init_sampleInterval = s, init_collectInterval = Some NegZero\<rparr>)) = Num 10000 \<and>
   collectInterval (constructor (Some \<lparr>init_sampleInterval = s, init_collectInterval = Some NaN\<rparr>)) = Num 10000 \<and>
   collectInterval (constructor (Some \<lparr>init_sampleInterval = s, init_collectInterval = None\<rparr>)) = Num 10000 \<and>
   sampleInterval (constructor None) = Num 10 \<and>
   collectInterval (constructor None) = Num 10000 \<and>
   (x \<noteq> Num 0 \<and> x \<noteq> NegZero \<and> x \<noteq> NaN \<longrightarrow>
      sampleInterval (constructor (Some \<lparr>init_sampleInterval = Some x, init_collectInterval = c\<rparr>)) = x) \<and>
   (y \<noteq> Num 0 \<and> y \<noteq> NegZero \<and> y \<noteq> NaN \<longrightarrow>
      collectInterval (constructor (Some \<lparr>init_sampleInterval = s, init_collectInterval = Some y\<rparr>)) = y)"
proof -
  have n: "sampleInterval (constructor None) = Num 10" "collectInterval (constructor None) = Num 10000"
    by (simp_all add: constructor_def Let_def and_field_def or_default_falsy)
  show ?thesis
    unfolding constructor_fields n
    by (simp add: or_default_falsy or_default_truthy truthy_def)
qed

theorem falsy_interval_gets_default_witness:
  "constructor (Some \<lparr>init_sampleInterval = Some (Num 0), init_collectInterval = Some (Num 0)\<rparr>) =
     \<lparr>sampleInterval = Num 10, collectInterval = Num 10000, maxBufferSize = Num 1500\<rparr> \<and>
   sampleInterval (constructor (Some \<lparr>init_sampleInterval = Some (Num 20),
                                      init_collectInterval = Some (Num 0)\<rparr>)) = Num 20 \<and>
   collectInterval (constructor (Some \<lparr>init_sampleInterval = Some (Num 0),
                                       init_collectInterval = Some (Num 500)\<rparr>)) = Num 500"
proof -
  have a: "constructor (Some \<lparr>init_sampleInterval = Some (Num 0), init_collectInterval = Some (Num 0)\<rparr>) =
     \<lparr>sampleInterval = Num 10, collectInterval = Num 10000, maxBufferSize = Num 1500\<rparr>"
    by code_simp
  have b: "Num 20 \<noteq> Num 0 \<and> Num 20 \<noteq> NegZero \<and> Num 20 \<noteq> NaN"
    "Num 500 \<noteq> Num 0 \<and> Num 500 \<noteq> NegZero \<and> Num 500 \<noteq> NaN"
    by simp_all
  show ?thesis
    using a b falsy_interval_gets_default [of "Some (Num 0)" "Some (Num 0)" "Num 20" "Num 500"]
    by simp
qed

section \<open>The operations, case by case\<close>

lemma start_fresh:
  assumes "Profiler w \<noteq> Undefined" "Profiler_throws w = None" "session w = None"
  shows "start w = Inr (w\<lparr>
      engines := engines w @
        [\<lparr>engine_sampleInterval = sampleInterval (options w),
          engine_maxBufferSize = maxBufferSize (options w),
          engine_stopped = False, listeners = 1\<rparr>],
      calls := calls w @
        [NewProfiler (length (engines w)) (sampleInterval (options w)) (maxBufferSize (options w)),
         SetTimeout (next_timeout w) (collectInterval (options w)),
         AddEventListener (length (engines w))],
      timers := timers w @ [next_timeout w],
      next_timeout := Suc (next_timeout w),
      session := Some \<lparr>profiler = length (engines w), session_start = Num (now w),
                      timeoutId = next_timeout w\<rparr>\<rparr>)"
  using assms
  by (simp add: start_def new_Profiler_def setTimeout_def addEventListener_def
        performance_now_def Let_def)

lemma start_refused:
  assumes "Profiler w \<noteq> Undefined" "Profiler_throws w = Some e" "session w = None"
  shows "start w = Inl (EngineException e)"
  using assms by (simp add: start_def new_Profiler_def)

lemma start_active: "Profiler w \<noteq> Undefined \<Longrightarrow> session w = Some s \<Longrightarrow> start w = Inr w"
  by (simp add: start_def)

lemma start_unsupported: "Profiler w = Undefined \<Longrightarrow> start w = Inl UnsupportedEnvironment"
  by (simp add: start_def UnsupportedEnvironment_def)

lemma start_returns:
  assumes "start w = Inr w'"
  shows "Profiler w \<noteq> Undefined"
    and "session w = None \<Longrightarrow> Profiler_throws w = None"
    and "session w \<noteq> None \<Longrightarrow> w' = w"
  using assms
  by (auto simp: start_def new_Profiler_def split: if_splits option.splits)

lemma stop_active:
  assumes "session w = Some s"
  shows "stop w = (AfterTrace (profiler s), w\<lparr>
      engines := (if profiler s < length (engines w)
                  then (engines w)[profiler s := (engines w ! profiler s)\<lparr>engine_stopped := True\<rparr>]
                  else engines w),
      pending := pending w @ [(profiler s, session_start s)],
      calls := calls w @ [ProfilerStop (profiler s), ClearTimeout (timeoutId s)],
      timers := removeAll (timeoutId s) (timers w),
      session := None\<rparr>)"
  using assms
  by (simp add: stop_def profiler_stop_then_def clearTimeout_def Let_def)

lemma stop_idle: "session w = None \<Longrightarrow> stop w = (Resolved, w)"
  by (simp add: stop_def)

section \<open>The invariant is kept\<close>

lemma coherent_start:
  assumes "coherent w" "start w = Inr w'"
  shows "coherent w'"
proof (cases "session w")
  case None
  note cap = start_returns(1) [OF assms(2)]
  note thr = start_returns(2) [OF assms(2) None]
  note w' = assms(2) [unfolded start_fresh [OF cap thr None], simplified, symmetric]
  from assms(1) None cap show ?thesis
    unfolding w' coherent_def
    by (auto simp: nth_append less_Suc_eq)
next
  case (Some s)
  with start_returns(3) [OF assms(2)] have "w' = w"
    by simp
  with assms(1) show ?thesis by simp
qed

lemma coherent_stop:
  assumes "coherent w"
  shows "coherent (snd (stop w))"
proof (cases "session w")
  case None
  with assms show ?thesis by (simp add: stop_idle)
next
  case (Some s)
  from assms Some have p: "profiler s < length (engines w)"
    by (simp add: coherent_def)
  from assms Some p have live: "\<not> engine_stopped (engines w ! profiler s)"
    by (simp add: coherent_def)
  from assms live have fresh: "profiler s \<notin> fst ` set (pending w)"
    by (auto simp: coherent_def)
  from assms Some p fresh show ?thesis
    unfolding stop_active [OF Some] coherent_def
    by (auto simp: nth_list_update)
qed

lemma coherent_rotation: "coherent w \<Longrightarrow> coherent (rotation w)"
  by (auto simp: rotation_def Let_def coherent_stop split: sum.splits
           intro: coherent_start [OF coherent_stop])

lemma stop_timer_gone:
  assumes "session w = Some s"
  shows "stop (w\<lparr>timers := removeAll (timeoutId s) (timers w)\<rparr>) = stop w"
proof -
  have "session (w\<lparr>timers := removeAll (timeoutId s) (timers w)\<rparr>) = Some s"
    using assms by simp
  from stop_active [OF this] stop_active [OF assms] show ?thesis by simp
qed

lemma step_TimeoutFires:
  assumes "coherent w" "session w = Some s"
  shows "step (TimeoutFires (timeoutId s)) w = rotation w"
proof -
  from assms have "timers w = [timeoutId s]"
    by (simp add: coherent_def)
  then show ?thesis
    using stop_timer_gone [OF assms(2)]
    by (simp add: step_def rotation_def)
qed

lemma step_SampleBufferFull:
  assumes "coherent w" "h < length (engines w)"
  shows "step (SampleBufferFull h) w = rotation w"
  using assms by (simp add: step_def coherent_def)

lemma coherent_pending_filter:
  "coherent w \<Longrightarrow> coherent (w\<lparr>pending := filter P (pending w)\<rparr>)"
  by (auto simp: coherent_def distinct_map_filter)

lemma on_trace_fields:
  "session (on_trace s tr w) = session w" "engines (on_trace s tr w) = engines w"
  "timers (on_trace s tr w) = timers w" "pending (on_trace s tr w) = pending w"
  "Profiler (on_trace s tr w) = Profiler w" "now (on_trace s tr w) = now w"
  "timeOrigin (on_trace s tr w) = timeOrigin w" "calls (on_trace s tr w) = calls w"
  "options (on_trace s tr w) = options w" "next_timeout (on_trace s tr w) = next_timeout w"
  "Profiler_throws (on_trace s tr w) = Profiler_throws w"
  by (simp_all add: on_trace_def Let_def)

lemma coherent_on_trace: "coherent w \<Longrightarrow> coherent (on_trace s tr w)"
  unfolding coherent_def on_trace_fields by assumption

lemma coherent_run_pending: "coherent w \<Longrightarrow> coherent (run_pending h tr ps w)"
  by (induction ps arbitrary: w) (auto simp: coherent_on_trace)

lemma coherent_now: "coherent (w\<lparr>now := t\<rparr>) = coherent w"
  by (simp add: coherent_def)

lemma coherent_Profiler_throws: "coherent (w\<lparr>Profiler_throws := x\<rparr>) = coherent w"
  by (simp add: coherent_def)

lemma coherent_step:
  assumes "coherent w"
  shows "coherent (step e w)"
proof (cases e)
  case CallStart
  with assms show ?thesis
    by (auto simp: step_def split: sum.splits intro: coherent_start)
next
  case CallStop
  with assms show ?thesis
    by (simp add: step_def coherent_stop)
next
  case (TimeoutFires tid)
  show ?thesis
  proof (cases "tid \<in> set (timers w)")
    case True
    with assms obtain s where s: "session w = Some s" "tid = timeoutId s"
      by (auto simp: coherent_def split: option.splits)
    with assms TimeoutFires show ?thesis
      by (simp add: step_TimeoutFires coherent_rotation)
  next
    case False
    with assms TimeoutFires show ?thesis
      by (simp add: step_def)
  qed
next
  case (SampleBufferFull h)
  show ?thesis
  proof (cases "h < length (engines w)")
    case True
    with assms SampleBufferFull show ?thesis
      by (simp add: step_SampleBufferFull coherent_rotation)
  next
    case False
    with assms SampleBufferFull show ?thesis
      by (simp add: step_def)
  qed
next
  case (StopResolves h tr)
  with assms show ?thesis
    by (simp add: step_def coherent_run_pending coherent_pending_filter)
next
  case (StopRejects h)
  with assms show ?thesis
    by (simp add: step_def coherent_pending_filter)
next
  case (ClockReads t)
  with assms show ?thesis
    by (simp add: step_def coherent_now)
next
  case (EngineThrows x)
  with assms show ?thesis
    by (simp add: step_def coherent_Profiler_throws)
qed

lemma coherent_run: "coherent w \<Longrightarrow> coherent (run w es)"
  by (induction es arbitrary: w) (simp_all add: coherent_step)

lemma coherent_new_world: "coherent (new_world cap T0 t0 opts)"
  by (simp add: coherent_def new_world_def)

lemmas coherent_reachable = coherent_run [OF coherent_new_world]

lemma filter_upt_eq: "p < n \<Longrightarrow> filter (\<lambda>h. h = p) [0..<n] = [p]"
  by (induction n) (auto simp: less_Suc_eq)

lemma coherent_live_engines:
  assumes "coherent w"
  shows "live_engines w = (case session w of None \<Rightarrow> [] | Some s \<Rightarrow> [profiler s])"
proof (cases "session w")
  case None
  with assms show ?thesis
    by (simp add: live_engines_def coherent_def)
next
  case (Some s)
  with assms have p: "profiler s < length (engines w)"
    by (simp add: coherent_def)
  have "filter (\<lambda>h. \<not> engine_stopped (engines w ! h)) [0..<length (engines w)] =
        filter (\<lambda>h. h = profiler s) [0..<length (engines w)]"
    using assms Some by (intro filter_cong) (auto simp: coherent_def)
  with p Some show ?thesis
    by (simp add: live_engines_def filter_upt_eq)
qed

text \<open>
  C1. After every sequence of tasks (calls of \<open>start()\<close> and \<open>stop()\<close>, timeouts,
  buffer-full events, settled promises, clock readings, an engine constructor that
  throws or not) from a new object, the engine instances not told to stop are exactly
  the session's one, or none when the session slot is absent: there is never more than
  one. \<open>stopped\<close> is true exactly when the slot is absent, and between the \<open>stop()\<close> and
  the \<open>start()\<close> of a rotation no instance is live.
\<close>

theorem at_most_one_session:
  "let w = run (new_world cap T0 t0 opts) es in
     live_engines w = (case session w of None \<Rightarrow> [] | Some s \<Rightarrow> [profiler s]) \<and>
     length (live_engines w) \<le> 1 \<and>
     stopped w = (session w = None) \<and>
     stopped w = (live_engines w = []) \<and>
     live_engines (snd (stop w)) = []"
proof -
  define w where "w = run (new_world cap T0 t0 opts) es"
  have c: "coherent w"
    unfolding w_def by (rule coherent_reachable)
  have l: "live_engines w = (case session w of None \<Rightarrow> [] | Some s \<Rightarrow> [profiler s])"
    by (rule coherent_live_engines [OF c])
  have s: "session (snd (stop w)) = None"
    by (simp add: stop_def Let_def split: option.splits)
  have m: "live_engines (snd (stop w)) = []"
    using coherent_live_engines [OF coherent_stop [OF c]] s by simp
  from l m show ?thesis
    unfolding w_def [symmetric] Let_def
    by (simp add: stopped_def split: option.splits)
qed

theorem at_most_one_session_witness:
  "let w = run (new_world Constructor 1000 5 None)
             [CallStart, ClockReads 8, TimeoutFires 1, SampleBufferFull 1, CallStart] in
     live_engines w = [2] \<and> map_option profiler (session w) = Some 2 \<and> \<not> stopped w"
proof -
  have "map_option profiler (session (run (new_world Constructor 1000 5 None)
      [CallStart, ClockReads 8, TimeoutFires 1, SampleBufferFull 1, CallStart])) = Some 2"
    by code_simp
  then show ?thesis
    using at_most_one_session [of Constructor 1000 5 None
        "[CallStart, ClockReads 8, TimeoutFires 1, SampleBufferFull 1, CallStart]"]
    by (auto simp: Let_def stopped_def)
qed

section \<open>Rotation\<close>

lemma stop_keeps:
  "Profiler (snd (stop w)) = Profiler w" "Profiler_throws (snd (stop w)) = Profiler_throws w"
  "timeOrigin (snd (stop w)) = timeOrigin w" "options (snd (stop w)) = options w"
  "now (snd (stop w)) = now w" "delivered (snd (stop w)) = delivered w"
  "next_timeout (snd (stop w)) = next_timeout w"
  "length (engines (snd (stop w))) = length (engines w)"
  "session (snd (stop w)) = None"
  by (simp_all add: stop_def profiler_stop_then_def clearTimeout_def Let_def split: option.splits)

lemma rotation_active:
  assumes "Profiler w \<noteq> Undefined" "Profiler_throws w = None" "session w = Some s"
  shows "start (snd (stop w)) = Inr (rotation w)"
    and "calls (rotation w) = calls w @
          [ProfilerStop (profiler s), ClearTimeout (timeoutId s),
           NewProfiler (length (engines w)) (sampleInterval (options w)) (maxBufferSize (options w)),
           SetTimeout (next_timeout w) (collectInterval (options w)),
           AddEventListener (length (engines w))]"
    and "session (rotation w) =
          Some \<lparr>profiler = length (engines w), session_start = Num (now w),
                timeoutId = next_timeout w\<rparr>"
    and "pending (rotation w) = pending w @ [(profiler s, session_start s)]"
    and "delivered (rotation w) = delivered w"
proof -
  define w1 where "w1 = snd (stop w)"
  have w1: "session w1 = None" "Profiler w1 \<noteq> Undefined" "Profiler_throws w1 = None"
    "length (engines w1) = length (engines w)"
    "calls w1 = calls w @ [ProfilerStop (profiler s), ClearTimeout (timeoutId s)]"
    "pending w1 = pending w @ [(profiler s, session_start s)]" "delivered w1 = delivered w"
    "options w1 = options w" "now w1 = now w" "next_timeout w1 = next_timeout w"
    using assms by (simp_all add: w1_def stop_active [OF assms(3)])
  note fresh = start_fresh [OF w1(2) w1(3) w1(1)]
  from fresh show "start (snd (stop w)) = Inr (rotation w)"
    by (simp add: rotation_def w1_def [symmetric])
  have r: "Inr (rotation w) = start w1"
    using fresh by (simp add: rotation_def w1_def [symmetric])
  show "calls (rotation w) = calls w @
          [ProfilerStop (profiler s), ClearTimeout (timeoutId s),
           NewProfiler (length (engines w)) (sampleInterval (options w)) (maxBufferSize (options w)),
           SetTimeout (next_timeout w) (collectInterval (options w)),
           AddEventListener (length (engines w))]"
    using r w1 unfolding fresh by auto
  show "session (rotation w) =
          Some \<lparr>profiler = length (engines w), session_start = Num (now w),
                timeoutId = next_timeout w\<rparr>"
    using r w1 unfolding fresh by auto
  show "pending (rotation w) = pending w @ [(profiler s, session_start s)]"
    using r w1 unfolding fresh by auto
  show "delivered (rotation w) = delivered w"
    using r w1 unfolding fresh by auto
qed

lemma rotation_refused:
  assumes "Profiler w \<noteq> Undefined" "Profiler_throws w = Some e"
  shows "start (snd (stop w)) = Inl (EngineException e)"
    and "rotation w = snd (stop w)"
proof -
  show "start (snd (stop w)) = Inl (EngineException e)"
    using assms by (intro start_refused) (simp_all add: stop_keeps)
  then show "rotation w = snd (stop w)"
    by (simp add: rotation_def)
qed

lemma coherent_supported: "coherent w \<Longrightarrow> session w = Some s \<Longrightarrow> Profiler w \<noteq> Undefined"
  by (auto simp: coherent_def)

text \<open>
  C5. In every reachable world with an active session, the timeout of that session and
  the buffer-full event of its engine both do the same thing, \<open>stop()\<close> then
  \<open>start()\<close>. Where the engine's constructor returns, the calls the rotation makes are,
  in order: the old engine's \<open>stop()\<close>, \<open>clearTimeout\<close>, then \<open>new Profiler\<close> for a new
  instance, \<open>setTimeout\<close> and \<open>addEventListener\<close>; when the rotation ends the new session
  is in place while the old engine's trace is still awaited and no callback has run:
  \<open>start()\<close> did not wait for the promise of \<open>stop()\<close>. Where the constructor throws,
  the rotation has made the first two calls and ends there.
\<close>

theorem rotation_is_stop_then_start:
  assumes "w = run (new_world cap T0 t0 opts) es" "session w = Some s"
  shows "step (TimeoutFires (timeoutId s)) w = rotation w \<and>
         step (SampleBufferFull (profiler s)) w = rotation w \<and>
         profiler s \<noteq> length (engines w) \<and>
         (Profiler_throws w = None \<longrightarrow>
            start (snd (stop w)) = Inr (rotation w) \<and>
            calls (rotation w) = calls w @
             [ProfilerStop (profiler s), ClearTimeout (timeoutId s),
              NewProfiler (length (engines w)) (sampleInterval (options w))
                (maxBufferSize (options w)),
              SetTimeout (next_timeout w) (collectInterval (options w)),
              AddEventListener (length (engines w))] \<and>
            session (rotation w) =
              Some \<lparr>profiler = length (engines w), session_start = Num (now w),
                    timeoutId = next_timeout w\<rparr> \<and>
            pending (rotation w) = pending w @ [(profiler s, session_start s)] \<and>
            delivered (rotation w) = delivered w) \<and>
         (\<forall>e. Profiler_throws w = Some e \<longrightarrow>
            start (snd (stop w)) = Inl (EngineException e) \<and>
            rotation w = snd (stop w) \<and>
            calls (rotation w) =
              calls w @ [ProfilerStop (profiler s), ClearTimeout (timeoutId s)])"
proof -
  have c: "coherent w"
    unfolding assms(1) by (rule coherent_reachable)
  have p: "profiler s < length (engines w)"
    using c assms(2) by (simp add: coherent_def)
  note cap = coherent_supported [OF c assms(2)]
  have a: "step (TimeoutFires (timeoutId s)) w = rotation w"
    by (rule step_TimeoutFires [OF c assms(2)])
  have b: "step (SampleBufferFull (profiler s)) w = rotation w"
    by (rule step_SampleBufferFull [OF c p])
  have r: "calls (snd (stop w)) = calls w @ [ProfilerStop (profiler s), ClearTimeout (timeoutId s)]"
    by (simp add: stop_active [OF assms(2)])
  show ?thesis
    using a b p r rotation_active [OF cap _ assms(2)] rotation_refused [OF cap]
    by simp
qed

theorem rotation_is_stop_then_start_witness:
  "let w = run (new_world Constructor 1000 5 None) [CallStart] in
     session w = Some \<lparr>profiler = 0, session_start = Num 5, timeoutId = 1\<rparr> \<and>
     step (TimeoutFires 1) w = rotation w \<and>
     step (SampleBufferFull 0) w = rotation w \<and>
     session (rotation w) = Some \<lparr>profiler = 1, session_start = Num 5, timeoutId = 2\<rparr> \<and>
     pending (rotation w) = [(0, Num 5)] \<and>
     delivered (rotation w) = [] \<and>
     rotation (step (EngineThrows (Some ''NotAllowedError'')) w) =
       snd (stop (step (EngineThrows (Some ''NotAllowedError'')) w))"
proof -
  define w where "w = run (new_world Constructor 1000 5 None) [CallStart]"
  define v where "v = run (new_world Constructor 1000 5 None)
                        [CallStart, EngineThrows (Some ''NotAllowedError'')]"
  have s: "session w = Some \<lparr>profiler = 0, session_start = Num 5, timeoutId = 1\<rparr>"
    unfolding w_def by code_simp
  have f: "length (engines w) = 1" "now w = 5" "next_timeout w = 2" "pending w = []"
    "delivered w = []" "Profiler_throws w = None"
    unfolding w_def by code_simp+
  have sv: "session v = Some \<lparr>profiler = 0, session_start = Num 5, timeoutId = 1\<rparr>"
    unfolding v_def by code_simp
  have fv: "Profiler_throws v = Some ''NotAllowedError''"
    unfolding v_def by code_simp
  have v: "step (EngineThrows (Some ''NotAllowedError'')) w = v"
    by (simp add: v_def w_def)
  show ?thesis
    using rotation_is_stop_then_start [OF w_def s] rotation_is_stop_then_start [OF v_def sv] s f fv
    unfolding w_def [symmetric] Let_def v by simp
qed



section \<open>What no task changes\<close>

lemma start_constants:
  "start w = Inr w' \<Longrightarrow>
     Profiler w' = Profiler w \<and> timeOrigin w' = timeOrigin w \<and> options w' = options w \<and>
     now w' = now w \<and> delivered w' = delivered w \<and> pending w' = pending w \<and>
     Profiler_throws w' = Profiler_throws w"
  by (auto simp: start_def new_Profiler_def setTimeout_def addEventListener_def Let_def
           split: if_splits option.splits)

lemma rotation_constants:
  "Profiler (rotation w) = Profiler w \<and> timeOrigin (rotation w) = timeOrigin w \<and>
   options (rotation w) = options w \<and> now (rotation w) = now w \<and>
   delivered (rotation w) = delivered w \<and> Profiler_throws (rotation w) = Profiler_throws w"
  using start_constants [of "snd (stop w)"]
  by (auto simp: rotation_def Let_def stop_keeps split: sum.splits)

lemma rotations_constants:
  "Profiler ((rotation ^^ n) w) = Profiler w \<and> timeOrigin ((rotation ^^ n) w) = timeOrigin w \<and>
   options ((rotation ^^ n) w) = options w \<and> now ((rotation ^^ n) w) = now w \<and>
   delivered ((rotation ^^ n) w) = delivered w"
  by (induction n) (simp_all add: rotation_constants)

lemma run_pending_constants:
  "Profiler (run_pending h tr ps w) = Profiler w \<and> timeOrigin (run_pending h tr ps w) = timeOrigin w \<and>
   options (run_pending h tr ps w) = options w \<and> now (run_pending h tr ps w) = now w \<and>
   session (run_pending h tr ps w) = session w \<and> pending (run_pending h tr ps w) = pending w \<and>
   engines (run_pending h tr ps w) = engines w \<and>
   Profiler_throws (run_pending h tr ps w) = Profiler_throws w"
  by (induction h tr ps w rule: run_pending.induct) (simp_all add: on_trace_fields)

lemma step_constants:
  "Profiler (step e w) = Profiler w \<and> timeOrigin (step e w) = timeOrigin w \<and>
   options (step e w) = options w"
proof (cases e)
  case CallStart
  then show ?thesis
    using start_constants [of w] by (auto simp: step_def split: sum.splits)
next
  case CallStop
  then show ?thesis
    by (simp add: step_def stop_keeps)
next
  case (TimeoutFires tid)
  then show ?thesis
    by (simp add: step_def rotation_constants)
next
  case (SampleBufferFull h)
  then show ?thesis
    by (simp add: step_def rotations_constants)
next
  case (StopResolves h tr)
  then show ?thesis
    by (simp add: step_def run_pending_constants)
next
  case (StopRejects h)
  then show ?thesis
    by (simp add: step_def)
next
  case (ClockReads t)
  then show ?thesis
    by (simp add: step_def)
next
  case (EngineThrows x)
  then show ?thesis
    by (simp add: step_def)
qed

lemma run_constants:
  "Profiler (run w es) = Profiler w \<and> timeOrigin (run w es) = timeOrigin w \<and>
   options (run w es) = options w"
  by (induction es arbitrary: w) (simp_all add: step_constants)

lemma reachable_constants:
  "Profiler (run (new_world cap T0 t0 opts) es) = cap"
  "timeOrigin (run (new_world cap T0 t0 opts) es) = T0"
  "options (run (new_world cap T0 t0 opts) es) = constructor opts"
  by (simp_all add: run_constants new_world_def)

section \<open>What \<open>start()\<close> throws\<close>

text \<open>
  C7, as the claim states it, fails in its last part. The module constant \<open>Profiler\<close>
  is defined and \<open>supported\<close> is true, but \<open>new Profiler(...)\<close> throws (as it does in a
  document without the \<open>js-profiling\<close> policy): \<open>start()\<close> throws that exception.
\<close>

theorem start_throws_with_capability_counterexample:
  "let w = run (new_world Constructor 1000 5 None) [EngineThrows (Some ''NotAllowedError'')] in
     Profiler w = Constructor \<and> supported w \<and>
     start w = Inl (EngineException ''NotAllowedError'') \<and>
     \<not> (\<exists>w'. start w = Inr w')"
proof -
  define w where
    "w = run (new_world Constructor 1000 5 None) [EngineThrows (Some ''NotAllowedError'')]"
  have a: "Profiler w = Constructor"
    unfolding w_def by code_simp
  have b: "start w = Inl (EngineException ''NotAllowedError'')"
    unfolding w_def by code_simp
  show ?thesis
    unfolding w_def [symmetric] Let_def
    using a b by (simp add: supported_def)
qed

text \<open>
  C7, amended. In every reachable world, \<open>start()\<close> throws the error "Profiler is not
  supported." exactly when the module constant \<open>Profiler\<close> is undefined, and
  \<open>supported\<close> is true exactly when it is defined. Where it is undefined, \<open>stop()\<close>
  returns a resolved promise and changes nothing. Where it is defined, \<open>start()\<close>
  returns normally exactly when a session is active or the engine's constructor
  returns; otherwise it throws what the constructor throws, never the error above.
\<close>

theorem start_throws_iff_unsupported:
  "let w = run (new_world cap T0 t0 opts) es in
     (start w = Inl UnsupportedEnvironment) = (cap = Undefined) \<and>
     supported w = (cap \<noteq> Undefined) \<and>
     (cap = Undefined \<longrightarrow> stop w = (Resolved, w) \<and> step CallStart w = w) \<and>
     (cap \<noteq> Undefined \<longrightarrow>
        (\<exists>w'. start w = Inr w') = (session w \<noteq> None \<or> Profiler_throws w = None) \<and>
        (\<forall>e. session w = None \<and> Profiler_throws w = Some e \<longrightarrow>
             start w = Inl (EngineException e)))"
proof -
  define w where "w = run (new_world cap T0 t0 opts) es"
  have cap: "Profiler w = cap"
    unfolding w_def by (rule reachable_constants)
  have c: "coherent w"
    unfolding w_def by (rule coherent_reachable)
  have a: "(start w = Inl UnsupportedEnvironment) = (cap = Undefined)"
    using cap
    by (auto simp: start_def new_Profiler_def UnsupportedEnvironment_def Let_def
             split: prod.splits option.splits)
  have b: "(\<exists>w'. start w = Inr w') = (session w \<noteq> None \<or> Profiler_throws w = None)"
    if "cap \<noteq> Undefined"
    using cap that
    by (auto simp: start_def new_Profiler_def Let_def split: prod.splits option.splits)
  have e: "start w = Inl (EngineException e)"
    if "cap \<noteq> Undefined" "session w = None" "Profiler_throws w = Some e" for e
    using cap that by (intro start_refused) simp_all
  have d: "stop w = (Resolved, w)" "step CallStart w = w" if "cap = Undefined"
    using that c cap by (simp_all add: coherent_def stop_idle step_def start_def)
  show ?thesis
    unfolding w_def [symmetric] Let_def
    using a b d e cap by (simp add: supported_def)
qed

theorem start_throws_iff_unsupported_witness:
  "(let w = run (new_world Undefined 1000 5 None) [CallStart, CallStop] in
     start w = Inl UnsupportedEnvironment \<and> \<not> supported w \<and> stop w = (Resolved, w)) \<and>
   (let w = run (new_world Constructor 1000 5 None) [CallStart, CallStop] in
     (\<exists>w'. start w = Inr w') \<and> supported w) \<and>
   (let w = run (new_world Constructor 1000 5 None) [EngineThrows (Some ''NotAllowedError'')] in
     start w = Inl (EngineException ''NotAllowedError'') \<and> supported w)"
proof -
  have a: "Profiler_throws (run (new_world Constructor 1000 5 None) [CallStart, CallStop]) = None"
    by code_simp
  have b: "session (run (new_world Constructor 1000 5 None)
             [EngineThrows (Some ''NotAllowedError'')]) = None"
    "Profiler_throws (run (new_world Constructor 1000 5 None)
             [EngineThrows (Some ''NotAllowedError'')]) = Some ''NotAllowedError''"
    by code_simp+
  show ?thesis
    using start_throws_iff_unsupported [of Undefined 1000 5 None "[CallStart, CallStop]"]
      start_throws_iff_unsupported [of Constructor 1000 5 None "[CallStart, CallStop]"]
      start_throws_iff_unsupported [of Constructor 1000 5 None
        "[EngineThrows (Some ''NotAllowedError'')]"] a b
    by (simp add: Let_def)
qed

section \<open>Calling \<open>start()\<close> and \<open>stop()\<close> twice\<close>

lemma start_throws_whatever_the_clock:
  "start w = Inl e \<Longrightarrow> start (w\<lparr>now := t\<rparr>) = Inl e"
  by (auto simp: start_def new_Profiler_def Let_def split: if_splits option.splits prod.splits)

text \<open>
  C8. In every reachable world, \<open>start()\<close> with a session in place returns normally and
  changes nothing. So a second \<open>start()\<close> after a first leaves the world of the first
  (the same session: start time, engine instance, timeout; no call to the host), also
  when the clock has moved on in between.
\<close>

theorem start_twice_is_start_once:
  "let w = run (new_world cap T0 t0 opts) es in
     (session w \<noteq> None \<longrightarrow> start w = Inr w) \<and>
     (start w = Inr w1 \<longrightarrow> session w1 \<noteq> None \<and> start w1 = Inr w1 \<and>
        start (step (ClockReads t) w1) = Inr (step (ClockReads t) w1)) \<and>
     run w [CallStart, CallStart] = run w [CallStart] \<and>
     run w [CallStart, ClockReads t, CallStart] = run w [CallStart, ClockReads t]"
proof -
  define w where "w = run (new_world cap T0 t0 opts) es"
  have c: "coherent w"
    unfolding w_def by (rule coherent_reachable)
  have a: "start w = Inr w" if "session w \<noteq> None"
    using that c by (auto simp: start_def coherent_def)
  have b: "session v \<noteq> None \<and> start v = Inr v \<and>
      start (step (ClockReads t) v) = Inr (step (ClockReads t) v)"
    if "start w = Inr v" for v
  proof -
    note cap = start_returns(1) [OF that]
    with start_constants [OF that] have p: "Profiler v \<noteq> Undefined"
      by simp
    have s: "session v \<noteq> None"
    proof (cases "session w")
      case None
      note thr = start_returns(2) [OF that None]
      from that show ?thesis
        unfolding start_fresh [OF cap thr None] by auto
    next
      case (Some s)
      with start_returns(3) [OF that] show ?thesis by simp
    qed
    from p s show ?thesis
      by (auto simp: start_def step_def)
  qed
  have d: "run w [CallStart, CallStart] = run w [CallStart] \<and>
    run w [CallStart, ClockReads t, CallStart] = run w [CallStart, ClockReads t]"
  proof (cases "start w")
    case (Inl e)
    then have "start (step (ClockReads t) w) = Inl e"
      by (simp add: step_def start_throws_whatever_the_clock)
    with Inl show ?thesis
      by (simp add: step_def [of CallStart])
  next
    case (Inr v)
    with b [OF Inr] show ?thesis
      by (simp add: step_def [of CallStart])
  qed
  show ?thesis
    unfolding w_def [symmetric] Let_def
    using a b d by blast
qed

theorem start_twice_is_start_once_witness:
  "let w = run (new_world Constructor 1000 5 None) [ClockReads 7];
       w1 = step CallStart w
   in start w = Inr w1 \<and>
      session w1 = Some \<lparr>profiler = 0, session_start = Num 7, timeoutId = 1\<rparr> \<and>
      start w1 = Inr w1 \<and>
      session (run w [CallStart, ClockReads 10, CallStart]) =
        Some \<lparr>profiler = 0, session_start = Num 7, timeoutId = 1\<rparr>"
proof -
  define w where "w = run (new_world Constructor 1000 5 None) [ClockReads 7]"
  define w1 where "w1 = step CallStart w"
  have s: "start w = Inr w1"
    unfolding w1_def w_def by code_simp
  have t: "session w1 = Some \<lparr>profiler = 0, session_start = Num 7, timeoutId = 1\<rparr>"
    unfolding w1_def w_def by code_simp
  have u: "session (run w [CallStart, ClockReads 10]) =
      Some \<lparr>profiler = 0, session_start = Num 7, timeoutId = 1\<rparr>"
    unfolding w_def by code_simp
  show ?thesis
    using start_twice_is_start_once [of Constructor 1000 5 None "[ClockReads 7]" w1 10] s t u
    unfolding w_def [symmetric] w1_def [symmetric] Let_def by simp
qed

subsection \<open>What a resolved trace delivers\<close>

lemma delivered_on_trace:
  "delivered (on_trace s tr w) =
     delivered w @
     [Object_assign tr (js_add (Num (timeOrigin w)) s) (js_add (Num (timeOrigin w)) (Num (now w)))]"
  by (simp add: on_trace_def performance_now_def performance_timeOrigin_def Let_def)

lemma delivered_run_pending:
  "delivered (run_pending h tr ps w) =
     delivered w @
     map (\<lambda>p. Object_assign tr (js_add (Num (timeOrigin w)) (snd p))
                               (js_add (Num (timeOrigin w)) (Num (now w))))
       (filter (\<lambda>p. fst p = h) ps)"
  by (induction h tr ps w rule: run_pending.induct)
     (simp_all add: on_trace_fields delivered_on_trace)

lemma delivered_StopResolves:
  "delivered (step (StopResolves h tr) w) =
     delivered w @
     map (\<lambda>p. Object_assign tr (js_add (Num (timeOrigin w)) (snd p))
                               (js_add (Num (timeOrigin w)) (Num (now w))))
       (filter (\<lambda>p. fst p = h) (pending w))"
  by (simp add: step_def delivered_run_pending)

lemma pending_StopResolves:
  "pending (step (StopResolves h tr) w) = filter (\<lambda>p. fst p \<noteq> h) (pending w)"
  by (simp add: step_def run_pending_constants)

lemma filter_distinct_key:
  "distinct (map fst ps) \<Longrightarrow> (h, S) \<in> set ps \<Longrightarrow> filter (\<lambda>p. fst p = h) ps = [(h, S)]"
proof (induction ps)
  case Nil
  then show ?case by simp
next
  case (Cons p ps)
  show ?case
  proof (cases "fst p = h")
    case True
    with Cons.prems have "p = (h, S)"
      by (cases p) (auto simp: image_iff)
    moreover from Cons.prems True have "filter (\<lambda>p. fst p = h) ps = []"
      by (auto simp: filter_empty_conv image_iff)
    ultimately show ?thesis by simp
  next
    case False
    with Cons show ?thesis by auto
  qed
qed

lemma delivered_one:
  assumes "coherent w" "(h, S) \<in> set (pending w)"
  shows "delivered (step (StopResolves h tr) w) =
           delivered w @
           [Object_assign tr (js_add (Num (timeOrigin w)) S)
                             (js_add (Num (timeOrigin w)) (Num (now w)))]"
proof -
  from assms have "filter (\<lambda>p. fst p = h) (pending w) = [(h, S)]"
    by (intro filter_distinct_key) (simp_all add: coherent_def)
  then show ?thesis
    by (simp add: delivered_StopResolves)
qed

lemma delivered_none:
  assumes "h \<notin> fst ` set (pending w)"
  shows "delivered (step (StopResolves h tr) w) = delivered w"
proof -
  from assms have "filter (\<lambda>p. fst p = h) (pending w) = []"
    by (auto simp: filter_empty_conv image_iff)
  then show ?thesis
    by (simp add: delivered_StopResolves)
qed

text \<open>
  C9. In every reachable world, \<open>stop()\<close> with no session returns a resolved promise
  and changes nothing. With a session, a second \<open>stop()\<close> after the first is that
  no-op; neither call invokes the callback; when the engine's trace resolves the callback
  is invoked once, and nothing more is delivered for that engine afterwards.
\<close>

theorem stop_twice_delivers_once:
  "let w = run (new_world cap T0 t0 opts) es in
     (session w = None \<longrightarrow> stop w = (Resolved, w)) \<and>
     (session w = Some s \<longrightarrow>
        (let w2 = snd (stop w); w3 = step (StopResolves (profiler s) tr) w2 in
           stop w2 = (Resolved, w2) \<and>
           delivered w2 = delivered w \<and>
           delivered w3 =
             delivered w @
             [Object_assign tr (js_add (Num T0) (session_start s))
                               (js_add (Num T0) (Num (now w)))] \<and>
           delivered (step (StopResolves (profiler s) tr') w3) = delivered w3 \<and>
           run w [CallStop, CallStop, StopResolves (profiler s) tr] = w3))"
proof -
  define w where "w = run (new_world cap T0 t0 opts) es"
  have c: "coherent w"
    unfolding w_def by (rule coherent_reachable)
  have T0: "timeOrigin w = T0"
    unfolding w_def by (rule reachable_constants)
  have b: "let w2 = snd (stop w); w3 = step (StopResolves (profiler s) tr) w2 in
           stop w2 = (Resolved, w2) \<and>
           delivered w2 = delivered w \<and>
           delivered w3 =
             delivered w @
             [Object_assign tr (js_add (Num T0) (session_start s))
                               (js_add (Num T0) (Num (now w)))] \<and>
           delivered (step (StopResolves (profiler s) tr') w3) = delivered w3 \<and>
           run w [CallStop, CallStop, StopResolves (profiler s) tr] = w3"
    if s: "session w = Some s"
  proof -
    define w2 where "w2 = snd (stop w)"
    define w3 where "w3 = step (StopResolves (profiler s) tr) w2"
    have c2: "coherent w2"
      unfolding w2_def by (rule coherent_stop [OF c])
    have f: "session w2 = None" "pending w2 = pending w @ [(profiler s, session_start s)]"
      "delivered w2 = delivered w" "timeOrigin w2 = T0" "now w2 = now w"
      using T0 by (simp_all add: w2_def stop_active [OF s])
    have i: "stop w2 = (Resolved, w2)"
      using f(1) by (rule stop_idle)
    have "(profiler s, session_start s) \<in> set (pending w2)"
      by (simp add: f)
    from delivered_one [OF c2 this, of tr]
    have d3: "delivered w3 =
        delivered w @
        [Object_assign tr (js_add (Num T0) (session_start s)) (js_add (Num T0) (Num (now w)))]"
      by (simp add: w3_def f)
    have "profiler s \<notin> fst ` set (pending w3)"
      by (auto simp: w3_def pending_StopResolves)
    from delivered_none [OF this]
    have d4: "delivered (step (StopResolves (profiler s) tr') w3) = delivered w3" .
    have r: "run w [CallStop, CallStop, StopResolves (profiler s) tr] = w3"
      using i by (simp add: step_def [of CallStop] w2_def [symmetric] w3_def)
    show ?thesis
      unfolding w2_def [symmetric] w3_def [symmetric] Let_def
      using i f(3) d3 d4 r by simp
  qed
  show ?thesis
    unfolding w_def [symmetric] Let_def [of "run (new_world cap T0 t0 opts) es"]
    using b by (auto simp: stop_idle)
qed

theorem stop_twice_delivers_once_witness:
  "(let w = new_world Constructor 1000 5 None in stop w = (Resolved, w)) \<and>
   (let w = run (new_world Constructor 1000 5 None) [CallStart, ClockReads 8];
        tr = \<lparr>resources = [''app.js''], frames = [], stacks = [], samples = []\<rparr>
    in session w = Some \<lparr>profiler = 0, session_start = Num 5, timeoutId = 1\<rparr> \<and>
       stop (snd (stop w)) = (Resolved, snd (stop w)) \<and>
       delivered (run w [CallStop, CallStop, StopResolves 0 tr]) =
         [Object_assign tr (Num 1005) (Num 1008)] \<and>
       delivered (run w [CallStop, CallStop, StopResolves 0 tr, StopResolves 0 tr]) =
         [Object_assign tr (Num 1005) (Num 1008)])"
proof -
  define w where "w = run (new_world Constructor 1000 5 None) [CallStart, ClockReads 8]"
  define tr :: ProfilerTrace where
    "tr = \<lparr>resources = [''app.js''], frames = [], stacks = [], samples = []\<rparr>"
  have n: "session (run (new_world Constructor 1000 5 None) []) = None"
    by (simp add: new_world_def)
  have s: "session w = Some \<lparr>profiler = 0, session_start = Num 5, timeoutId = 1\<rparr>"
    unfolding w_def by code_simp
  have f: "delivered w = []" "now w = 8"
    unfolding w_def by code_simp+
  have j: "js_add (Num 1000) (Num 5) = Num 1005" "js_add (Num 1000) (Num 8) = Num 1008"
    by code_simp+
  have r: "run w [CallStop, CallStop, StopResolves 0 tr, StopResolves 0 tr] =
      step (StopResolves 0 tr) (run w [CallStop, CallStop, StopResolves 0 tr])"
    by simp
  show ?thesis
    using stop_twice_delivers_once [of Constructor 1000 5 None "[]"]
      stop_twice_delivers_once [of Constructor 1000 5 None "[CallStart, ClockReads 8]"
        "\<lparr>profiler = 0, session_start = Num 5, timeoutId = 1\<rparr>" tr tr] n s f j
    unfolding w_def [symmetric] tr_def [symmetric] Let_def r
    by simp
qed

section \<open>The bounds of a delivered trace\<close>












section \<open>A buffer-full event of a superseded engine\<close>

text \<open>
  C4. The claim is that a \<open>samplebufferfull\<close> event of an engine instance already
  rotated out does nothing. The listener closes over \<open>this\<close>, not over the session it
  was added for, and \<open>stop()\<close> never removes it (the timeout, by contrast, is cleared).
  Here the object starts (instance 0), the timeout fires after 10000 ms and rotates to
  instance 1, and then instance 0 dispatches the event: the listener stops instance 1 and
  starts instance 2, a second rotation.
\<close>

theorem stale_buffer_full_rotates_again:
  "let w = run (new_world Constructor 1000 0 None) [CallStart, ClockReads 10000, TimeoutFires 1];
       w' = step (SampleBufferFull 0) w
   in session w = Some \<lparr>profiler = 1, session_start = Num 10000, timeoutId = 2\<rparr> \<and>
      engine_stopped (engines w ! 0) \<and>
      session w' = Some \<lparr>profiler = 2, session_start = Num 10000, timeoutId = 3\<rparr> \<and>
      calls w' = calls w @
        [ProfilerStop 1, ClearTimeout 2, NewProfiler 2 (Num 10) (Num 1500),
         SetTimeout 3 (Num 10000), AddEventListener 2] \<and>
      w' \<noteq> w"
proof -
  define w where
    "w = run (new_world Constructor 1000 0 None) [CallStart, ClockReads 10000, TimeoutFires 1]"
  define w' where "w' = step (SampleBufferFull 0) w"
  have a: "session w = Some \<lparr>profiler = 1, session_start = Num 10000, timeoutId = 2\<rparr>"
    unfolding w_def by code_simp
  have b: "engine_stopped (engines w ! 0)"
    unfolding w_def by code_simp
  have c: "session w' = Some \<lparr>profiler = 2, session_start = Num 10000, timeoutId = 3\<rparr>"
    unfolding w'_def w_def by code_simp
  have d: "calls w' = calls w @
        [ProfilerStop 1, ClearTimeout 2, NewProfiler 2 (Num 10) (Num 1500),
         SetTimeout 3 (Num 10000), AddEventListener 2]"
    unfolding w'_def w_def by code_simp
  from a c have e: "w' \<noteq> w"
    by auto
  show ?thesis
    unfolding w_def [symmetric] w'_def [symmetric] Let_def
    using a b c d e by simp
qed

end
